theory Spec2Isabelle
  imports Complex_Main "HOL-Library.Product_Lexorder" "HOL-Library.Multiset"
begin

section \<open>The statistics engine of resilio (\<^verbatim>\<open>lib/stats.py\<close>)\<close>

text \<open>
  The theory embeds the functions of \<^verbatim>\<open>lib/stats.py\<close> and the
  \<^verbatim>\<open>hypothesis_test\<close> command of its \<^verbatim>\<open>main\<close>.

  Numbers: the program computes with Python floats and ints. Both are modelled by
  \<^typ>\<open>real\<close> (list lengths by \<^typ>\<open>int\<close>), so rounding, overflow, infinities and
  NaN are outside the model; every statement below is about the arithmetic the program
  would perform on exact reals.

  Errors: a Python exception is the \<open>Inl\<close> branch of a result \<open>py_error + 'a\<close>.
  Every division by a variable, every \<^verbatim>\<open>math.sqrt\<close>, every list index and every
  call into the \<^verbatim>\<open>statistics\<close> module is such a fallible step.
\<close>

subsection \<open>Python values and exceptions\<close>

datatype py_error = StatisticsError | ValueError | ZeroDivisionError | IndexError

text \<open>Sequencing of fallible steps: the first exception ends the computation.\<close>

definition try_bind :: "py_error + 'a \<Rightarrow> ('a \<Rightarrow> py_error + 'b) \<Rightarrow> py_error + 'b" where
  "try_bind m f = (case m of Inl e \<Rightarrow> Inl e | Inr x \<Rightarrow> f x)"

text \<open>\<^verbatim>\<open>a / b\<close> raises \<^verbatim>\<open>ZeroDivisionError\<close> for a zero divisor (ints and floats alike).\<close>

definition py_div :: "real \<Rightarrow> real \<Rightarrow> py_error + real" where
  "py_div a b = (if b = 0 then Inl ZeroDivisionError else Inr (a / b))"

text \<open>\<^verbatim>\<open>math.sqrt\<close> raises \<^verbatim>\<open>ValueError\<close> below zero.\<close>

definition math_sqrt :: "real \<Rightarrow> py_error + real" where
  "math_sqrt x = (if x < 0 then Inl ValueError else Inr (sqrt x))"

text \<open>\<^verbatim>\<open>int(x)\<close> of a float truncates towards zero.\<close>

definition py_int :: "real \<Rightarrow> int" where
  "py_int x = (if x < 0 then \<lceil>x\<rceil> else \<lfloor>x\<rfloor>)"

text \<open>\<^verbatim>\<open>xs[i]\<close>: an index below zero counts from the end; out of range raises.\<close>

definition py_index :: "'a list \<Rightarrow> int \<Rightarrow> py_error + 'a" where
  "py_index xs i =
     (let pos = (if i < 0 then i + int (length xs) else i)
      in if pos < 0 then Inl IndexError
         else if int (length xs) \<le> pos then Inl IndexError
         else Inr (xs ! nat pos))"

subsection \<open>The functions of Python's \<^verbatim>\<open>statistics\<close> module that the program calls\<close>

text \<open>
  These are library functions, modelled from their documentation: \<^verbatim>\<open>mean\<close> and
  \<^verbatim>\<open>median\<close> raise \<^verbatim>\<open>StatisticsError\<close> on an empty sequence, \<^verbatim>\<open>variance\<close> and
  \<^verbatim>\<open>stdev\<close> (sample variance, denominator \<open>n - 1\<close>) on fewer than two points.
\<close>

definition statistics_mean :: "real list \<Rightarrow> py_error + real" where
  "statistics_mean xs =
     (if xs = [] then Inl StatisticsError else Inr (sum_list xs / real (length xs)))"

definition statistics_median :: "real list \<Rightarrow> py_error + real" where
  "statistics_median xs =
     (if xs = [] then Inl StatisticsError
      else let srt = sort xs; n = length xs
           in if n mod 2 = 1 then Inr (srt ! (n div 2))
              else Inr ((srt ! (n div 2 - 1) + srt ! (n div 2)) / 2))"

definition statistics_variance :: "real list \<Rightarrow> py_error + real" where
  "statistics_variance xs =
     (if length xs < 2 then Inl StatisticsError
      else let m = sum_list xs / real (length xs)
           in Inr (sum_list (map (\<lambda>x. (x - m)\<^sup>2) xs) / (real (length xs) - 1)))"

definition statistics_stdev :: "real list \<Rightarrow> py_error + real" where
  "statistics_stdev xs = try_bind (statistics_variance xs) math_sqrt"

subsection \<open>\<^verbatim>\<open>calculate_stats\<close>\<close>

text \<open>
  The result list is \<^verbatim>\<open>[mean, median, stdev, min_val, max_val, p90, p95, p99, ci_lower,
  ci_upper]\<close>; the empty sample returns \<^verbatim>\<open>[0] * 10\<close> before anything is computed.
\<close>

definition calculate_stats :: "real list \<Rightarrow> py_error + real list" where
  "calculate_stats values =
     (if values = [] then Inr (replicate 10 0)
      else
        let n = int (length values) in
        try_bind (statistics_mean values) (\<lambda>mean.
        try_bind (statistics_median values) (\<lambda>median.
        try_bind (if n > 1
                  then try_bind (statistics_stdev values) (\<lambda>sd.
                       try_bind (statistics_variance values) (\<lambda>var. Inr (sd, var)))
                  else Inr (0, 0)) (\<lambda>(stdev, variance).
        let min_val = Min (set values);
            max_val = Max (set values);
            sorted_vals = sort values in
        try_bind (py_index sorted_vals (py_int (0.90 * real_of_int (n - 1)))) (\<lambda>p90.
        try_bind (py_index sorted_vals (py_int (0.95 * real_of_int (n - 1)))) (\<lambda>p95.
        try_bind (py_index sorted_vals (py_int (0.99 * real_of_int (n - 1)))) (\<lambda>p99.
        try_bind (if n > 0
                  then try_bind (math_sqrt (real_of_int n)) (\<lambda>root_n.
                       try_bind (py_div stdev root_n) (\<lambda>q. Inr (1.96 * q)))
                  else Inr 0) (\<lambda>confidence_margin.
        let ci_lower = mean - confidence_margin;
            ci_upper = mean + confidence_margin in
        Inr [mean, median, stdev, min_val, max_val, p90, p95, p99, ci_lower, ci_upper]))))))))"

subsection \<open>\<^verbatim>\<open>check_normality\<close>\<close>

text \<open>The comprehension \<^verbatim>\<open>[(x - mean) / stdev for x in values]\<close>.\<close>

fun z_scores_of :: "real list \<Rightarrow> real \<Rightarrow> real \<Rightarrow> py_error + real list" where
  "z_scores_of [] mean stdev = Inr []"
| "z_scores_of (x # xs) mean stdev =
     try_bind (py_div (x - mean) stdev) (\<lambda>z.
     try_bind (z_scores_of xs mean stdev) (\<lambda>zs. Inr (z # zs)))"

definition check_normality :: "real list \<Rightarrow> py_error + (string \<times> real \<times> real)" where
  "check_normality values =
     (let n = int (length values) in
      if n < 20 then Inr (''insufficient_data'', 0, 0)
      else
        try_bind (statistics_mean values) (\<lambda>mean.
        try_bind (statistics_stdev values) (\<lambda>stdev.
        if stdev = 0 then Inr (''zero_variance'', 0, 0)
        else
          try_bind (z_scores_of values mean stdev) (\<lambda>z_scores.
          try_bind (py_div (sum_list (map (\<lambda>z. z ^ 3) z_scores)) (real_of_int n)) (\<lambda>skewness.
          try_bind (py_div (sum_list (map (\<lambda>z. z ^ 4) z_scores)) (real_of_int n)) (\<lambda>m4.
          let kurtosis = m4 - 3;
              is_normal = (\<bar>skewness\<bar> \<le> 1.0 \<and> \<bar>kurtosis\<bar> \<le> 2.0);
              status = (if is_normal then ''approximately_normal'' else ''non_normal'')
          in Inr (status, skewness, kurtosis)))))))"

subsection \<open>\<^verbatim>\<open>welchs_t_test\<close>\<close>

text \<open>
  The function returns a Python tuple. Its two guarded exits return four components, its
  last line three; the caller unpacks three (\<^verbatim>\<open>t, df, status = welchs_t_test(v1, v2)\<close>),
  which raises \<^verbatim>\<open>ValueError\<close> on any other length. The tuple is therefore a datatype
  of both shapes.
\<close>

datatype py_tuple = Tuple3 real real string | Tuple4 real real real string

fun unpack3 :: "py_tuple \<Rightarrow> py_error + (real \<times> real \<times> string)" where
  "unpack3 (Tuple3 a b c) = Inr (a, b, c)"
| "unpack3 (Tuple4 a b c d) = Inl ValueError"

text \<open>
  \<open>q1\<close> and \<open>q2\<close> stand for \<^verbatim>\<open>s1_sq / n1\<close> and \<^verbatim>\<open>s2_sq / n2\<close>, which the source writes
  out three times each.
\<close>

definition welchs_t_test :: "real list \<Rightarrow> real list \<Rightarrow> py_error + py_tuple" where
  "welchs_t_test v1 v2 =
     (let n1 = int (length v1); n2 = int (length v2) in
      if n1 < 2 \<or> n2 < 2 then Inr (Tuple4 0 0 0 ''insufficient_data'')
      else
        try_bind (statistics_mean v1) (\<lambda>m1.
        try_bind (statistics_mean v2) (\<lambda>m2.
        try_bind (statistics_variance v1) (\<lambda>s1_sq.
        try_bind (statistics_variance v2) (\<lambda>s2_sq.
        try_bind (py_div s1_sq (real_of_int n1)) (\<lambda>q1.
        try_bind (py_div s2_sq (real_of_int n2)) (\<lambda>q2.
        try_bind (math_sqrt (q1 + q2)) (\<lambda>se.
        if se = 0 then Inr (Tuple4 0 0 999 ''zero_variance'')
        else
          try_bind (py_div (m1 - m2) se) (\<lambda>t_stat.
          let num = (q1 + q2)\<^sup>2 in
          try_bind (py_div (q1\<^sup>2) (real_of_int (n1 - 1))) (\<lambda>d1.
          try_bind (py_div (q2\<^sup>2) (real_of_int (n2 - 1))) (\<lambda>d2.
          let den = d1 + d2 in
          try_bind (if den > 0 then py_div num den else Inr 30) (\<lambda>df.
          Inr (Tuple3 t_stat df ''success'')))))))))))))"

subsection \<open>\<^verbatim>\<open>mann_whitney_u_test\<close>\<close>

text \<open>
  The local variables that the two rank loops of the function read and write; the
  counters \<^verbatim>\<open>i\<close>, \<^verbatim>\<open>j\<close> and \<^verbatim>\<open>k\<close> are the fields \<open>idx_i\<close>, \<open>idx_j\<close> and
  \<open>idx_k\<close>. The source assigns \<^verbatim>\<open>j\<close>, \<^verbatim>\<open>k\<close>, \<^verbatim>\<open>avg_rank\<close> and \<^verbatim>\<open>r1_sum\<close> only
  inside or after the first loop; before that they hold 0 here.
\<close>

record mw_locals =
  combined :: "(real \<times> nat) list"
  ranks :: "real list"
  idx_i :: nat
  idx_j :: nat
  idx_k :: nat
  avg_rank :: real
  r1_sum :: real

text \<open>
  \<^verbatim>\<open>sorted([(v, 1) for v in v1] + [(v, 2) for v in v2])\<close>: Python compares tuples
  lexicographically, as the order on pairs does here.
\<close>

definition merged :: "real list \<Rightarrow> real list \<Rightarrow> (real \<times> nat) list" where
  "merged v1 v2 = sort (map (\<lambda>v. (v, 1)) v1 @ map (\<lambda>v. (v, 2)) v2)"

text \<open>
  The inner loop
  \<^verbatim>\<open>while j < len(combined) and combined[j][0] == combined[i][0]: j += 1\<close>.
  Both outer loops enter it with \<open>j = i < len(combined)\<close>; from there \<open>j\<close> only grows
  (\<open>tie_end_mono\<close> below) and never passes the length (\<open>tie_end_bounded\<close>). So the
  reads \<^verbatim>\<open>combined[i]\<close> and \<^verbatim>\<open>combined[j]\<close> here, and \<^verbatim>\<open>combined[k]\<close> for
  \<open>i \<le> k < j\<close> in the \<^verbatim>\<open>for\<close> loops, are in range: the loops have no
  \<^verbatim>\<open>IndexError\<close> branch.
\<close>

function tie_end :: "mw_locals \<Rightarrow> mw_locals" where
  "tie_end s =
     (if idx_j s < length (combined s) \<and> fst (combined s ! idx_j s) = fst (combined s ! idx_i s)
      then tie_end (s\<lparr>idx_j := idx_j s + 1\<rparr>)
      else s)"
  by pat_completeness auto
termination
  by (relation "measure (\<lambda>s. length (combined s) - idx_j s)") auto

declare tie_end.simps [simp del]

lemma tie_end_frame:
  "combined (tie_end s) = combined s \<and> idx_i (tie_end s) = idx_i s \<and>
   ranks (tie_end s) = ranks s \<and> idx_k (tie_end s) = idx_k s \<and>
   avg_rank (tie_end s) = avg_rank s \<and> r1_sum (tie_end s) = r1_sum s"
  by (induction s rule: tie_end.induct) (subst (1 2 3 4 5 6) tie_end.simps, simp)

lemma tie_end_mono: "idx_j s \<le> idx_j (tie_end s)"
proof (induction s rule: tie_end.induct)
  case (1 s)
  then show ?case by (auto simp add: tie_end.simps [of s])
qed

lemma tie_end_advances:
  assumes "idx_j s = idx_i s" and "idx_i s < length (combined s)"
  shows "idx_i s < idx_j (tie_end s)"
proof -
  have "tie_end s = tie_end (s\<lparr>idx_j := idx_j s + 1\<rparr>)"
    using assms by (subst tie_end.simps) simp
  moreover have "idx_j (s\<lparr>idx_j := idx_j s + 1\<rparr>) \<le> idx_j (tie_end (s\<lparr>idx_j := idx_j s + 1\<rparr>))"
    by (rule tie_end_mono)
  ultimately show ?thesis using assms by simp
qed

lemma tie_end_bounded:
  "idx_j s \<le> length (combined s) \<Longrightarrow> idx_j (tie_end s) \<le> length (combined s)"
proof (induction s rule: tie_end.induct)
  case (1 s)
  then show ?case by (auto simp add: tie_end.simps [of s])
qed

text \<open>
  One round of the first loop (source lines 92 to 106): find the end of the tie group,
  compute its mean rank, run the \<^verbatim>\<open>for k in range(i, j): pass\<close> loop, move on.
\<close>

definition first_pass_step :: "mw_locals \<Rightarrow> mw_locals" where
  "first_pass_step s =
     (let s = s\<lparr>idx_j := idx_i s\<rparr>;
          s = tie_end s;
          s = s\<lparr>avg_rank := (real (idx_i s) + 1 + real (idx_j s)) / 2\<rparr>;
          s = fold (\<lambda>k s. s\<lparr>idx_k := k\<rparr>) [idx_i s..<idx_j s] s
      in s\<lparr>idx_i := idx_j s\<rparr>)"

text \<open>
  One round of the second loop (source lines 113 to 120): as above, but the \<^verbatim>\<open>for\<close>
  loop adds the mean rank to \<^verbatim>\<open>r1_sum\<close> for every member of group 1.
\<close>

definition add_rank :: "nat \<Rightarrow> mw_locals \<Rightarrow> mw_locals" where
  "add_rank k s =
     (let s = s\<lparr>idx_k := k\<rparr>
      in if snd (combined s ! k) = 1 then s\<lparr>r1_sum := r1_sum s + avg_rank s\<rparr> else s)"

definition second_pass_step :: "mw_locals \<Rightarrow> mw_locals" where
  "second_pass_step s =
     (let s = s\<lparr>idx_j := idx_i s\<rparr>;
          s = tie_end s;
          s = s\<lparr>avg_rank := (real (idx_i s) + 1 + real (idx_j s)) / 2\<rparr>;
          s = fold add_rank [idx_i s..<idx_j s] s
      in s\<lparr>idx_i := idx_j s\<rparr>)"

lemma fold_idx_k_frame:
  "combined (fold (\<lambda>k s. s\<lparr>idx_k := k\<rparr>) ks s) = combined s \<and>
   idx_j (fold (\<lambda>k s. s\<lparr>idx_k := k\<rparr>) ks s) = idx_j s"
  by (induction ks arbitrary: s) simp_all

lemma fold_add_rank_frame:
  "combined (fold add_rank ks s) = combined s \<and> idx_j (fold add_rank ks s) = idx_j s \<and>
   idx_i (fold add_rank ks s) = idx_i s \<and> avg_rank (fold add_rank ks s) = avg_rank s \<and>
   ranks (fold add_rank ks s) = ranks s"
  by (induction ks arbitrary: s) (simp_all add: add_rank_def Let_def)

lemma first_pass_step_frame:
  "combined (first_pass_step s) = combined s \<and>
   idx_i (first_pass_step s) = idx_j (tie_end (s\<lparr>idx_j := idx_i s\<rparr>))"
  by (simp add: first_pass_step_def Let_def fold_idx_k_frame tie_end_frame)

lemma second_pass_step_frame:
  "combined (second_pass_step s) = combined s \<and>
   idx_i (second_pass_step s) = idx_j (tie_end (s\<lparr>idx_j := idx_i s\<rparr>))"
  by (simp add: second_pass_step_def Let_def fold_add_rank_frame tie_end_frame)

lemma step_decreases:
  assumes "idx_i s < length (combined s)"
  shows "length (combined s) - idx_j (tie_end (s\<lparr>idx_j := idx_i s\<rparr>)) < length (combined s) - idx_i s"
proof -
  have "idx_i s < idx_j (tie_end (s\<lparr>idx_j := idx_i s\<rparr>))"
    using tie_end_advances [of "s\<lparr>idx_j := idx_i s\<rparr>"] assms by simp
  with assms show ?thesis by simp
qed

text \<open>The loops \<^verbatim>\<open>while i < len(combined): ...\<close>.\<close>

function first_pass :: "mw_locals \<Rightarrow> mw_locals" where
  "first_pass s = (if idx_i s < length (combined s) then first_pass (first_pass_step s) else s)"
  by pat_completeness auto
termination
  by (relation "measure (\<lambda>s. length (combined s) - idx_i s)")
     (simp_all add: first_pass_step_frame step_decreases)

function second_pass :: "mw_locals \<Rightarrow> mw_locals" where
  "second_pass s = (if idx_i s < length (combined s) then second_pass (second_pass_step s) else s)"
  by pat_completeness auto
termination
  by (relation "measure (\<lambda>s. length (combined s) - idx_i s)")
     (simp_all add: second_pass_step_frame step_decreases)

declare first_pass.simps [simp del]
declare second_pass.simps [simp del]

text \<open>
  Source lines 86 to 120: the merged list, the list \<^verbatim>\<open>ranks\<close>, the first loop, then
  \<^verbatim>\<open>combined\<close>, \<^verbatim>\<open>r1_sum\<close> and \<^verbatim>\<open>i\<close> assigned afresh and the second loop. The
  result is the state of the local variables at line 121.
\<close>

definition rank_passes :: "real list \<Rightarrow> real list \<Rightarrow> mw_locals" where
  "rank_passes v1 v2 =
     (let s = \<lparr>combined = merged v1 v2, ranks = replicate (length v1 + length v2) 0,
               idx_i = 0, idx_j = 0, idx_k = 0, avg_rank = 0, r1_sum = 0\<rparr>;
          s = first_pass s;
          s = s\<lparr>combined := merged v1 v2\<rparr>;
          s = s\<lparr>r1_sum := 0\<rparr>;
          s = s\<lparr>idx_i := 0\<rparr>
      in second_pass s)"

text \<open>
  The same with source lines 89 to 106 (the list \<^verbatim>\<open>ranks\<close> and the first loop)
  removed: the single rank-sum pass. No \<^verbatim>\<open>ranks\<close> is assigned here; the field holds
  the empty list.
\<close>

definition rank_single_pass :: "real list \<Rightarrow> real list \<Rightarrow> mw_locals" where
  "rank_single_pass v1 v2 =
     (let s = \<lparr>combined = merged v1 v2, ranks = [],
               idx_i = 0, idx_j = 0, idx_k = 0, avg_rank = 0, r1_sum = 0\<rparr>;
          s = s\<lparr>combined := merged v1 v2\<rparr>;
          s = s\<lparr>r1_sum := 0\<rparr>;
          s = s\<lparr>idx_i := 0\<rparr>
      in second_pass s)"

text \<open>Source lines 122 and 123.\<close>

definition mw_u1 :: "real \<Rightarrow> int \<Rightarrow> real" where
  "mw_u1 r1 n1 = r1 - real_of_int (n1 * (n1 + 1)) / 2"

definition mw_u2 :: "real \<Rightarrow> int \<Rightarrow> int \<Rightarrow> real" where
  "mw_u2 u1 n1 n2 = real_of_int (n1 * n2) - u1"

text \<open>Source lines 122 to 136, from the rank sum of group 1 to the returned tuple.\<close>

definition mw_finish :: "real \<Rightarrow> int \<Rightarrow> int \<Rightarrow> py_error + py_tuple" where
  "mw_finish r1 n1 n2 =
     (let u1 = mw_u1 r1 n1;
          u2 = mw_u2 u1 n1 n2;
          u_stat = min u1 u2;
          mu_u = real_of_int (n1 * n2) / 2 in
      try_bind (math_sqrt (real_of_int (n1 * n2 * (n1 + n2 + 1)) / 12)) (\<lambda>sigma_u.
      if sigma_u = 0 then Inr (Tuple3 u_stat 0 ''zero_variance'')
      else
        try_bind (py_div (u_stat - mu_u) sigma_u) (\<lambda>z_score.
        Inr (Tuple3 u_stat z_score ''success''))))"

definition mann_whitney_u_test :: "real list \<Rightarrow> real list \<Rightarrow> py_error + py_tuple" where
  "mann_whitney_u_test v1 v2 =
     (let n1 = int (length v1); n2 = int (length v2) in
      if n1 < 3 \<or> n2 < 3 then Inr (Tuple3 0 0 ''insufficient_data'')
      else mw_finish (r1_sum (rank_passes v1 v2)) n1 n2)"

definition mann_whitney_single_pass :: "real list \<Rightarrow> real list \<Rightarrow> py_error + py_tuple" where
  "mann_whitney_single_pass v1 v2 =
     (let n1 = int (length v1); n2 = int (length v2) in
      if n1 < 3 \<or> n2 < 3 then Inr (Tuple3 0 0 ''insufficient_data'')
      else mw_finish (r1_sum (rank_single_pass v1 v2)) n1 n2)"

subsection \<open>Effect sizes and p-value tables\<close>

definition calculate_cohens_d ::
  "real \<Rightarrow> real \<Rightarrow> real \<Rightarrow> real \<Rightarrow> int \<Rightarrow> int \<Rightarrow> py_error + real" where
  "calculate_cohens_d m1 m2 s1_sq s2_sq n1 n2 =
     try_bind (py_div ((real_of_int (n1 - 1) * s1_sq) + (real_of_int (n2 - 1) * s2_sq))
                      (real_of_int (n1 + n2 - 2))) (\<lambda>pooled_var.
     try_bind (math_sqrt pooled_var) (\<lambda>pooled_sd.
     if pooled_sd > 0 then py_div (m1 - m2) pooled_sd else Inr 0))"

definition calculate_rank_biserial :: "real \<Rightarrow> int \<Rightarrow> int \<Rightarrow> py_error + real" where
  "calculate_rank_biserial u_stat n1 n2 =
     try_bind (py_div (2 * u_stat) (real_of_int (n1 * n2))) (\<lambda>q. Inr (1 - q))"

definition interpret_effect_size :: "real \<Rightarrow> string" where
  "interpret_effect_size effect =
     (let abs_e = \<bar>effect\<bar> in
      if abs_e < 0.2 then ''negligible''
      else if abs_e < 0.5 then ''small''
      else if abs_e < 0.8 then ''medium''
      else ''large'')"

definition t_to_pvalue :: "real \<Rightarrow> real \<Rightarrow> real" where
  "t_to_pvalue t df =
     (let abs_t = \<bar>t\<bar> in
      if df > 30 then
        (if abs_t > 3.5 then 0.001
         else if abs_t > 2.576 then 0.01
         else if abs_t > 1.96 then 0.05
         else if abs_t > 1.645 then 0.10
         else 0.20)
      else
        (if abs_t > 3.0 then 0.01
         else if abs_t > 2.0 then 0.05
         else 0.20))"

definition z_to_pvalue :: "real \<Rightarrow> real" where
  "z_to_pvalue z =
     (let abs_z = \<bar>z\<bar> in
      if abs_z > 3.291 then 0.001
      else if abs_z > 2.576 then 0.01
      else if abs_z > 1.96 then 0.05
      else if abs_z > 1.645 then 0.10
      else if abs_z > 1.28 then 0.20
      else 0.50)"

subsection \<open>The \<^verbatim>\<open>hypothesis_test\<close> command of \<^verbatim>\<open>main\<close>\<close>

text \<open>
  The command reads the two samples, prints one line
  \<^verbatim>\<open>welch|t|df|p|status|effect|s1_status|s2_status\<close> or
  \<^verbatim>\<open>mann_whitney|u|z|p|status|effect|s1_status|s2_status\<close>, and turns any exception
  into the line \<^verbatim>\<open>ERROR|...\<close> with exit status 1. The model starts from the parsed
  samples; the printed line is the outcome below (its fields in the order printed), the
  error line is \<open>Inl\<close>.
\<close>

datatype test_outcome =
    WelchOutcome real real real string real string string
  | MannWhitneyOutcome real real real string real string string

definition hypothesis_test :: "real list \<Rightarrow> real list \<Rightarrow> py_error + test_outcome" where
  "hypothesis_test v1 v2 =
     (let n1 = int (length v1); n2 = int (length v2) in
      try_bind (check_normality v1) (\<lambda>(s1_status, s1_skew, s1_kurt).
      try_bind (check_normality v2) (\<lambda>(s2_status, s2_skew, s2_kurt).
      if s1_status = ''approximately_normal'' \<and> s2_status = ''approximately_normal''
      then
        try_bind (welchs_t_test v1 v2) (\<lambda>ret.
        try_bind (unpack3 ret) (\<lambda>(t, df, status).
        let p = t_to_pvalue t df in
        try_bind (statistics_mean v1) (\<lambda>m1.
        try_bind (statistics_mean v2) (\<lambda>m2.
        try_bind (statistics_variance v1) (\<lambda>v1_var.
        try_bind (statistics_variance v2) (\<lambda>v2_var.
        try_bind (calculate_cohens_d m1 m2 v1_var v2_var n1 n2) (\<lambda>effect.
        Inr (WelchOutcome t df p status effect s1_status s2_status))))))))
      else
        try_bind (mann_whitney_u_test v1 v2) (\<lambda>ret.
        try_bind (unpack3 ret) (\<lambda>(u, z, status).
        let p = z_to_pvalue z in
        try_bind (calculate_rank_biserial u n1 n2) (\<lambda>effect.
        Inr (MannWhitneyOutcome u z p status effect s1_status s2_status)))))))"

subsection \<open>The z table in the words of the specification\<close>

text \<open>
  The specification gives \<^verbatim>\<open>z_to_pvalue\<close> as a table: thresholds on \<open>\<bar>z\<bar>\<close> at
  3.291, 2.576, 1.96, 1.645 and 1.28 map to 0.001, 0.01, 0.05, 0.10 and 0.20, anything
  else to 0.50. The table and its reading (the first threshold exceeded decides) are
  written here on their own, to be compared with the function of the source.
\<close>

definition spec_z_thresholds :: "(real \<times> real) list" where
  "spec_z_thresholds = [(3.291, 0.001), (2.576, 0.01), (1.96, 0.05), (1.645, 0.10), (1.28, 0.20)]"

fun spec_first_exceeded :: "real \<Rightarrow> (real \<times> real) list \<Rightarrow> real \<Rightarrow> real" where
  "spec_first_exceeded a [] otherwise = otherwise"
| "spec_first_exceeded a ((threshold, p) # rest) otherwise =
     (if a > threshold then p else spec_first_exceeded a rest otherwise)"

subsection \<open>The midrank in the words of the specification\<close>

text \<open>
  The specification ranks the merged sample by position in its sorted order and gives
  every member of a run of equal values, at positions \<open>[i, j)\<close> with ranks
  \<open>i + 1\<close> to \<open>j\<close>, the average rank \<open>(i + 1 + j) / 2\<close>. For a value \<open>x\<close>
  of the merged sample \<open>xs\<close> the run starts after the values below \<open>x\<close> and ends
  with the values up to \<open>x\<close>, whatever order \<open>xs\<close> is held in.
\<close>

definition spec_midrank :: "real list \<Rightarrow> real \<Rightarrow> real" where
  "spec_midrank xs x =
     (real (length (filter (\<lambda>y. y < x) xs)) + 1 + real (length (filter (\<lambda>y. y \<le> x) xs))) / 2"

section \<open>Properties\<close>

subsection \<open>Fallible steps that cannot fail\<close>

lemma try_bind_Inr [simp]: "try_bind (Inr x) f = f x"
  by (simp add: try_bind_def)

lemma try_bind_Inl [simp]: "try_bind (Inl e) f = Inl e"
  by (simp add: try_bind_def)

lemma statistics_variance_nonneg:
  assumes "statistics_variance xs = Inr v"
  shows "0 \<le> v"
proof -
  have len: "2 \<le> length xs"
    using assms by (simp add: statistics_variance_def split: if_splits)
  have "0 \<le> sum_list (map (\<lambda>x. (x - sum_list xs / real (length xs))\<^sup>2) xs)"
    by (rule sum_list_nonneg) auto
  moreover have "0 < real (length xs) - 1"
    using len by simp
  ultimately show ?thesis
    using assms len by (auto simp add: statistics_variance_def Let_def)
qed

lemma statistics_variance_total:
  "2 \<le> length xs \<Longrightarrow> \<exists>v. statistics_variance xs = Inr v \<and> 0 \<le> v"
  using statistics_variance_nonneg [of xs]
  by (simp add: statistics_variance_def Let_def)

lemma statistics_stdev_total:
  assumes "2 \<le> length xs"
  shows "\<exists>sd. statistics_stdev xs = Inr sd \<and> 0 \<le> sd"
proof -
  obtain v where "statistics_variance xs = Inr v" "0 \<le> v"
    using statistics_variance_total [OF assms] by blast
  then show ?thesis
    by (simp add: statistics_stdev_def math_sqrt_def)
qed

lemma z_scores_of_total:
  "sd \<noteq> 0 \<Longrightarrow> \<exists>zs. z_scores_of xs m sd = Inr zs"
  by (induction xs) (auto simp add: py_div_def)

lemma check_normality_small:
  "length xs < 20 \<Longrightarrow> check_normality xs = Inr (''insufficient_data'', 0, 0)"
  by (simp add: check_normality_def)

lemma check_normality_total:
  "\<exists>st sk ku. check_normality xs = Inr (st, sk, ku)"
proof (cases "length xs < 20")
  case True
  then show ?thesis by (simp add: check_normality_small)
next
  case False
  then have len: "2 \<le> length xs" and ne: "xs \<noteq> []" by auto
  obtain sd where sd: "statistics_stdev xs = Inr sd"
    using statistics_stdev_total [OF len] by blast
  show ?thesis
  proof (cases "sd = 0")
    case True
    with False sd ne show ?thesis
      by (simp add: check_normality_def statistics_mean_def)
  next
    case nz: False
    obtain zs where "z_scores_of xs (sum_list xs / real (length xs)) sd = Inr zs"
      using z_scores_of_total [OF nz] by blast
    with False sd ne nz show ?thesis
      by (simp add: check_normality_def statistics_mean_def py_div_def Let_def)
  qed
qed

subsection \<open>Descriptive statistics\<close>

text \<open>
  Claim C9. For the empty sample \<^verbatim>\<open>calculate_stats\<close> does not fail: it returns a list of
  ten fields (mean, median, stdev, min, max, p90, p95, p99, ci_lower, ci_upper), each of
  them exactly 0.
\<close>

theorem calculate_stats_empty:
  "calculate_stats [] = Inr [0, 0, 0, 0, 0, 0, 0, 0, 0, 0]"
  by (simp add: calculate_stats_def numeral_eq_Suc)

lemma percentile_pos:
  assumes "0 \<le> q" and "q \<le> 1" and "xs \<noteq> []"
  shows "nat \<lfloor>q * (real (length xs) - 1)\<rfloor> < length xs"
proof -
  have "q * (real (length xs) - 1) \<le> 1 * (real (length xs) - 1)"
    using assms by (intro mult_right_mono) (simp_all add: Suc_leI)
  then have "q * (real (length xs) - 1) < real_of_int (int (length xs))"
    by simp
  then have "\<lfloor>q * (real (length xs) - 1)\<rfloor> < int (length xs)"
    by (simp only: floor_less_iff)
  moreover have "0 < length xs" using assms by simp
  ultimately show ?thesis by linarith
qed

lemma statistics_median_total:
  assumes "xs \<noteq> []"
  shows "\<exists>md. statistics_median xs = Inr md"
proof (cases "length xs mod 2 = 1")
  case True
  with assms have "statistics_median xs = Inr (sort xs ! (length xs div 2))"
    by (simp add: statistics_median_def Let_def)
  then show ?thesis by blast
next
  case False
  with assms have "statistics_median xs =
      Inr ((sort xs ! (length xs div 2 - 1) + sort xs ! (length xs div 2)) / 2)"
    by (simp add: statistics_median_def Let_def)
  then show ?thesis by blast
qed

lemma percentile_index:
  assumes "0 \<le> q" and "q \<le> 1" and "xs \<noteq> []"
  shows "py_index (sort xs) (py_int (q * real_of_int (int (length xs) - 1))) =
         Inr (sort xs ! nat \<lfloor>q * (real (length xs) - 1)\<rfloor>)"
proof -
  have nonneg: "0 \<le> q * (real (length xs) - 1)"
    using assms by (simp add: Suc_leI)
  then have "py_int (q * real_of_int (int (length xs) - 1)) = \<lfloor>q * (real (length xs) - 1)\<rfloor>"
    by (simp add: py_int_def)
  moreover have "0 \<le> \<lfloor>q * (real (length xs) - 1)\<rfloor>"
    using nonneg by simp
  moreover have "\<lfloor>q * (real (length xs) - 1)\<rfloor> < int (length xs)"
    using percentile_pos [OF assms] by linarith
  ultimately show ?thesis
    by (simp add: py_index_def Let_def)
qed

lemma percentile_mono:
  assumes "0 \<le> q" and "q \<le> r" and "r \<le> 1" and "xs \<noteq> []"
  shows "sort xs ! nat \<lfloor>q * (real (length xs) - 1)\<rfloor> \<le> sort xs ! nat \<lfloor>r * (real (length xs) - 1)\<rfloor>"
proof -
  have "q * (real (length xs) - 1) \<le> r * (real (length xs) - 1)"
    using assms by (intro mult_right_mono) (simp_all add: Suc_leI)
  then have "nat \<lfloor>q * (real (length xs) - 1)\<rfloor> \<le> nat \<lfloor>r * (real (length xs) - 1)\<rfloor>"
    by (intro nat_mono floor_mono)
  moreover have "nat \<lfloor>r * (real (length xs) - 1)\<rfloor> < length (sort xs)"
    using percentile_pos [of r xs] assms by simp
  ultimately show ?thesis
    by (intro sorted_nth_mono) simp_all
qed

lemma percentile_between:
  assumes "0 \<le> q" and "q \<le> 1" and "xs \<noteq> []"
  shows "Min (set xs) \<le> sort xs ! nat \<lfloor>q * (real (length xs) - 1)\<rfloor>"
    and "sort xs ! nat \<lfloor>q * (real (length xs) - 1)\<rfloor> \<le> Max (set xs)"
proof -
  have "nat \<lfloor>q * (real (length xs) - 1)\<rfloor> < length (sort xs)"
    using percentile_pos [OF assms] by simp
  then have "sort xs ! nat \<lfloor>q * (real (length xs) - 1)\<rfloor> \<in> set (sort xs)"
    by (rule nth_mem)
  then have mem: "sort xs ! nat \<lfloor>q * (real (length xs) - 1)\<rfloor> \<in> set xs"
    by simp
  show "Min (set xs) \<le> sort xs ! nat \<lfloor>q * (real (length xs) - 1)\<rfloor>"
    using mem by (intro Min_le) simp_all
  show "sort xs ! nat \<lfloor>q * (real (length xs) - 1)\<rfloor> \<le> Max (set xs)"
    using mem by (intro Max_ge) simp_all
qed

lemma spread_total:
  "\<exists>sd var. (if int (length xs) > 1
              then try_bind (statistics_stdev xs) (\<lambda>sd.
                   try_bind (statistics_variance xs) (\<lambda>var. Inr (sd, var)))
              else Inr (0, 0)) = Inr (sd, var)"
proof (cases "int (length xs) > 1")
  case True
  then have len: "2 \<le> length xs" by simp
  obtain sd where "statistics_stdev xs = Inr sd"
    using statistics_stdev_total [OF len] by blast
  moreover obtain var where "statistics_variance xs = Inr var"
    using statistics_variance_total [OF len] by blast
  ultimately show ?thesis using True by simp
next
  case False
  then show ?thesis by simp
qed

lemma margin_total:
  "xs \<noteq> [] \<Longrightarrow>
   \<exists>cm. (if int (length xs) > 0
          then try_bind (math_sqrt (real_of_int (int (length xs)))) (\<lambda>root_n.
               try_bind (py_div sd root_n) (\<lambda>q. Inr (1.96 * q)))
          else Inr 0) = Inr cm"
  by (simp add: math_sqrt_def py_div_def)

text \<open>
  Claim C6. For every non-empty sample \<^verbatim>\<open>calculate_stats\<close> returns its ten fields, the
  percentiles are the elements of the ascending-sorted sample at the zero-based indices
  \<open>\<lfloor>q (n - 1)\<rfloor>\<close> for \<open>q\<close> = 0.90, 0.95, 0.99, and
  \<open>min \<le> p90 \<le> p95 \<le> p99 \<le> max\<close>.
\<close>

theorem calculate_stats_percentiles_ordered:
  assumes "values \<noteq> []"
  shows "\<exists>mean median stdev min_val max_val p90 p95 p99 ci_lower ci_upper.
           calculate_stats values =
             Inr [mean, median, stdev, min_val, max_val, p90, p95, p99, ci_lower, ci_upper] \<and>
           min_val = Min (set values) \<and> max_val = Max (set values) \<and>
           p90 = sort values ! nat \<lfloor>0.90 * (real (length values) - 1)\<rfloor> \<and>
           p95 = sort values ! nat \<lfloor>0.95 * (real (length values) - 1)\<rfloor> \<and>
           p99 = sort values ! nat \<lfloor>0.99 * (real (length values) - 1)\<rfloor> \<and>
           min_val \<le> p90 \<and> p90 \<le> p95 \<and> p95 \<le> p99 \<and> p99 \<le> max_val"
proof -
  obtain sd var where spread:
    "(if int (length values) > 1
      then try_bind (statistics_stdev values) (\<lambda>sd.
           try_bind (statistics_variance values) (\<lambda>var. Inr (sd, var)))
      else Inr (0, 0)) = Inr (sd, var)"
    using spread_total by blast
  obtain cm where margin:
    "(if int (length values) > 0
      then try_bind (math_sqrt (real_of_int (int (length values)))) (\<lambda>root_n.
           try_bind (py_div sd root_n) (\<lambda>q. Inr (1.96 * q)))
      else Inr 0) = Inr cm"
    using margin_total [OF assms] by blast
  obtain md where median: "statistics_median values = Inr md"
    using statistics_median_total [OF assms] by blast
  have mean: "statistics_mean values = Inr (sum_list values / real (length values))"
    using assms by (simp add: statistics_mean_def)
  have p90: "py_index (sort values) (py_int (0.90 * real_of_int (int (length values) - 1))) =
             Inr (sort values ! nat \<lfloor>0.90 * (real (length values) - 1)\<rfloor>)"
    using assms by (intro percentile_index) simp_all
  have p95: "py_index (sort values) (py_int (0.95 * real_of_int (int (length values) - 1))) =
             Inr (sort values ! nat \<lfloor>0.95 * (real (length values) - 1)\<rfloor>)"
    using assms by (intro percentile_index) simp_all
  have p99: "py_index (sort values) (py_int (0.99 * real_of_int (int (length values) - 1))) =
             Inr (sort values ! nat \<lfloor>0.99 * (real (length values) - 1)\<rfloor>)"
    using assms by (intro percentile_index) simp_all
  have result: "calculate_stats values =
      Inr [sum_list values / real (length values), md, sd, Min (set values), Max (set values),
           sort values ! nat \<lfloor>0.90 * (real (length values) - 1)\<rfloor>,
           sort values ! nat \<lfloor>0.95 * (real (length values) - 1)\<rfloor>,
           sort values ! nat \<lfloor>0.99 * (real (length values) - 1)\<rfloor>,
           sum_list values / real (length values) - cm,
           sum_list values / real (length values) + cm]"
    unfolding calculate_stats_def Let_def
    using assms by (simp only: if_False mean median spread margin p90 p95 p99 try_bind_Inr prod.case)
  have lo: "Min (set values) \<le> sort values ! nat \<lfloor>0.90 * (real (length values) - 1)\<rfloor>"
    using assms by (intro percentile_between) simp_all
  have m1: "sort values ! nat \<lfloor>0.90 * (real (length values) - 1)\<rfloor> \<le>
            sort values ! nat \<lfloor>0.95 * (real (length values) - 1)\<rfloor>"
    using assms by (intro percentile_mono) simp_all
  have m2: "sort values ! nat \<lfloor>0.95 * (real (length values) - 1)\<rfloor> \<le>
            sort values ! nat \<lfloor>0.99 * (real (length values) - 1)\<rfloor>"
    using assms by (intro percentile_mono) simp_all
  have hi: "sort values ! nat \<lfloor>0.99 * (real (length values) - 1)\<rfloor> \<le> Max (set values)"
    using assms by (intro percentile_between) simp_all
  from result lo m1 m2 hi show ?thesis by blast
qed

theorem calculate_stats_percentiles_ordered_witness:
  "\<exists>mean median stdev ci_lower ci_upper.
     calculate_stats [5, 1, 4, 2, 3] = Inr [mean, median, stdev, 1, 5, 4, 4, 4, ci_lower, ci_upper]"
  using calculate_stats_percentiles_ordered [of "[5, 1, 4, 2, 3]"]
  by simp

subsection \<open>The p-value table\<close>

text \<open>
  Claim C8. For every real \<open>z\<close>, \<^verbatim>\<open>z_to_pvalue\<close> is the table of the specification
  read on \<open>\<bar>z\<bar>\<close> (first threshold exceeded, else 0.50), and it is non-increasing in
  \<open>\<bar>z\<bar>\<close>.
\<close>

theorem z_to_pvalue_thresholds:
  "z_to_pvalue z = spec_first_exceeded \<bar>z\<bar> spec_z_thresholds 0.50 \<and>
   (\<forall>z'. \<bar>z\<bar> \<le> \<bar>z'\<bar> \<longrightarrow> z_to_pvalue z' \<le> z_to_pvalue z)"
proof
  show "z_to_pvalue z = spec_first_exceeded \<bar>z\<bar> spec_z_thresholds 0.50"
    by (simp add: z_to_pvalue_def spec_z_thresholds_def Let_def)
  show "\<forall>z'. \<bar>z\<bar> \<le> \<bar>z'\<bar> \<longrightarrow> z_to_pvalue z' \<le> z_to_pvalue z"
    by (simp add: z_to_pvalue_def Let_def)
qed

theorem z_to_pvalue_thresholds_witness:
  "\<bar>1 :: real\<bar> \<le> \<bar>- 2\<bar> \<and> z_to_pvalue (- 2) = 0.05 \<and> z_to_pvalue 1 = 0.50 \<and>
   z_to_pvalue (- 2) \<le> z_to_pvalue 1"
  using z_to_pvalue_thresholds [of 1]
  by (simp add: z_to_pvalue_def)

subsection \<open>Welch's test\<close>

lemma welchs_t_test_insufficient:
  "length v1 < 2 \<or> length v2 < 2 \<Longrightarrow>
   welchs_t_test v1 v2 = Inr (Tuple4 0 0 0 ''insufficient_data'')"
  by (auto simp add: welchs_t_test_def)

lemma welchs_t_test_zero_se:
  assumes "2 \<le> length v1" and "2 \<le> length v2"
    and "statistics_variance v1 = Inr s1_sq" and "statistics_variance v2 = Inr s2_sq"
    and "sqrt (s1_sq / real (length v1) + s2_sq / real (length v2)) = 0"
  shows "welchs_t_test v1 v2 = Inr (Tuple4 0 0 999 ''zero_variance'')"
proof -
  have ne: "v1 \<noteq> []" "v2 \<noteq> []" using assms(1,2) by auto
  have n: "\<not> int (length v1) < 2" "\<not> int (length v2) < 2"
    using assms(1,2) by auto
  have sum0: "s1_sq / real (length v1) + s2_sq / real (length v2) = 0"
    using assms(5) by simp
  show ?thesis
    unfolding welchs_t_test_def Let_def
    using n ne assms(3,4) sum0
    by (simp add: statistics_mean_def py_div_def math_sqrt_def)
qed

lemma welchs_t_test_success:
  assumes "2 \<le> length v1" and "2 \<le> length v2"
    and "statistics_variance v1 = Inr s1" and "statistics_variance v2 = Inr s2"
    and "0 < s1" and "0 < s2"
  shows "\<exists>t df. welchs_t_test v1 v2 = Inr (Tuple3 t df ''success'')"
proof -
  let ?q1 = "s1 / real (length v1)" and ?q2 = "s2 / real (length v2)"
  have ne: "v1 \<noteq> []" "v2 \<noteq> []" using assms(1,2) by auto
  have q: "0 < ?q1" "0 < ?q2" using assms(5,6) ne by simp_all
  then have se: "0 < ?q1 + ?q2" by simp
  have "0 < real (length v1) - 1" "0 < real (length v2) - 1"
    using assms(1,2) by linarith+
  then have "0 < ?q1\<^sup>2 / (real (length v1) - 1)" "0 < ?q2\<^sup>2 / (real (length v2) - 1)"
    using q by (auto intro!: divide_pos_pos zero_less_power)
  then have den: "0 < ?q1\<^sup>2 / (real (length v1) - 1) + ?q2\<^sup>2 / (real (length v2) - 1)"
    by simp
  have n: "\<not> int (length v1) < 2" "\<not> int (length v2) < 2"
       "real (length v1) \<noteq> 0" "real (length v2) \<noteq> 0"
       "real (length v1) - 1 \<noteq> 0" "real (length v2) - 1 \<noteq> 0"
    using assms(1,2) by auto
  have sq: "\<not> ?q1 + ?q2 < 0" "sqrt (?q1 + ?q2) \<noteq> 0"
    using se by simp_all
  show ?thesis
    unfolding welchs_t_test_def Let_def
    using n sq den ne assms(3,4)
    by (simp add: statistics_mean_def py_div_def math_sqrt_def)
qed

text \<open>
  Claim C2. The claim: with a sample of fewer than two elements \<^verbatim>\<open>welchs_t_test\<close>
  returns a result of shape (t_stat, df, status) with t_stat = df = 0 and status
  \<^verbatim>\<open>insufficient_data\<close>. The code at samples of one and two elements: it returns the
  four components \<^verbatim>\<open>(0, 0, 0, "insufficient_data")\<close>, which the three-variable
  unpacking of its caller rejects with \<^verbatim>\<open>ValueError\<close>.
\<close>

theorem welchs_t_test_insufficient_returns_four:
  "welchs_t_test [1] [1, 2] = Inr (Tuple4 0 0 0 ''insufficient_data'') \<and>
   unpack3 (Tuple4 0 0 0 ''insufficient_data'') = Inl ValueError"
  by (simp add: welchs_t_test_def)

text \<open>
  Claim C1. The claim: with two samples of at least two elements and standard error 0,
  \<^verbatim>\<open>welchs_t_test\<close> returns a result of shape (t_stat, df, status) with t_stat = 0,
  df = 0 and status \<^verbatim>\<open>zero_variance\<close>. The code at two constant samples of two
  elements: both variances are 0, the standard error is 0, and the function returns the
  four components \<^verbatim>\<open>(0, 0, 999, "zero_variance")\<close>, which the three-variable unpacking
  of its caller rejects with \<^verbatim>\<open>ValueError\<close>.
\<close>

theorem welchs_t_test_zero_variance_returns_four:
  "statistics_variance [1, 1] = Inr 0 \<and> statistics_variance [2, 2] = Inr 0 \<and>
   math_sqrt (0 / 2 + 0 / 2) = Inr 0 \<and>
   welchs_t_test [1, 1] [2, 2] = Inr (Tuple4 0 0 999 ''zero_variance'') \<and>
   unpack3 (Tuple4 0 0 999 ''zero_variance'') = Inl ValueError"
  by (simp add: welchs_t_test_def statistics_mean_def statistics_variance_def py_div_def
      math_sqrt_def)

subsection \<open>The Mann-Whitney test\<close>

lemma mw_finish_total:
  assumes "0 \<le> n1" and "0 \<le> n2"
  shows "\<exists>z status. mw_finish r1 n1 n2 =
           Inr (Tuple3 (min (mw_u1 r1 n1) (mw_u2 (mw_u1 r1 n1) n1 n2)) z status)"
proof -
  have "0 \<le> n1 * n2 * (n1 + n2 + 1)"
    using assms by simp
  then have "\<not> real_of_int (n1 * n2 * (n1 + n2 + 1)) / 12 < 0"
    by (simp add: not_less del: of_int_mult of_int_add)
  then show ?thesis
    by (simp add: mw_finish_def Let_def math_sqrt_def py_div_def)
qed

lemma rank_sum_example: "r1_sum (rank_passes [1, 2, 3] [2, 3, 4]) = 8"
  by code_simp

text \<open>
  Claim C5. For samples of at least three elements each, with \<open>r1_sum\<close> the rank sum
  the two loops leave behind, the intermediate quantities of \<^verbatim>\<open>mann_whitney_u_test\<close>
  are \<open>u1 = r1_sum - n1 (n1 + 1) / 2\<close> and \<open>u2 = n1 n2 - u1\<close>, they satisfy
  \<open>u1 + u2 = n1 n2\<close>, and the function returns with their minimum as its statistic.
\<close>

theorem mann_whitney_u1_plus_u2:
  assumes "3 \<le> length v1" and "3 \<le> length v2"
  shows "\<exists>r1 u1 u2 z status.
           r1 = r1_sum (rank_passes v1 v2) \<and>
           u1 = r1 - real (length v1 * (length v1 + 1)) / 2 \<and>
           u2 = real (length v1 * length v2) - u1 \<and>
           mw_u1 r1 (int (length v1)) = u1 \<and>
           mw_u2 u1 (int (length v1)) (int (length v2)) = u2 \<and>
           u1 + u2 = real (length v1 * length v2) \<and>
           mann_whitney_u_test v1 v2 = Inr (Tuple3 (min u1 u2) z status)"
proof -
  let ?r1 = "r1_sum (rank_passes v1 v2)"
  let ?u1 = "?r1 - real (length v1 * (length v1 + 1)) / 2"
  let ?u2 = "real (length v1 * length v2) - ?u1"
  have u1: "mw_u1 ?r1 (int (length v1)) = ?u1"
    by (simp add: mw_u1_def algebra_simps)
  have u2: "mw_u2 ?u1 (int (length v1)) (int (length v2)) = ?u2"
    by (simp add: mw_u2_def)
  obtain z status where
    "mw_finish ?r1 (int (length v1)) (int (length v2)) =
       Inr (Tuple3 (min (mw_u1 ?r1 (int (length v1)))
              (mw_u2 (mw_u1 ?r1 (int (length v1))) (int (length v1)) (int (length v2)))) z status)"
    using mw_finish_total [of "int (length v1)" "int (length v2)" ?r1] by auto
  then have ret: "mann_whitney_u_test v1 v2 = Inr (Tuple3 (min ?u1 ?u2) z status)"
    using assms by (simp only: u1 u2) (simp add: mann_whitney_u_test_def)
  have "?u1 + ?u2 = real (length v1 * length v2)"
    by simp
  with u1 u2 ret show ?thesis by blast
qed

theorem mann_whitney_u1_plus_u2_witness:
  "r1_sum (rank_passes [1, 2, 3] [2, 3, 4]) = 8 \<and>
   mw_u1 8 3 = 2 \<and> mw_u2 2 3 3 = 7 \<and> (2 :: real) + 7 = 9 \<and>
   (\<exists>z status. mann_whitney_u_test [1, 2, 3] [2, 3, 4] = Inr (Tuple3 2 z status))"
  using mann_whitney_u1_plus_u2 [of "[1, 2, 3]" "[2, 3, 4]"]
  by (auto simp add: rank_sum_example)

lemma tie_end_cong:
  "combined s = combined t \<Longrightarrow> idx_i s = idx_i t \<Longrightarrow> idx_j s = idx_j t \<Longrightarrow>
   idx_j (tie_end s) = idx_j (tie_end t)"
proof (induction s arbitrary: t rule: tie_end.induct)
  case (1 s)
  show ?case
  proof (cases "idx_j s < length (combined s) \<and>
                fst (combined s ! idx_j s) = fst (combined s ! idx_i s)")
    case True
    have "idx_j (tie_end (s\<lparr>idx_j := idx_j s + 1\<rparr>)) =
               idx_j (tie_end (t\<lparr>idx_j := idx_j t + 1\<rparr>))"
      by (rule 1(1) [OF True]) (simp_all add: 1(2-4))
    with True 1(2-4) show ?thesis
      by (simp add: tie_end.simps [of s] tie_end.simps [of t])
  next
    case False
    with 1(2-4) show ?thesis
      by (auto simp add: tie_end.simps [of s] tie_end.simps [of t])
  qed
qed

lemma fold_add_rank_cong:
  "combined s = combined t \<Longrightarrow> avg_rank s = avg_rank t \<Longrightarrow> r1_sum s = r1_sum t \<Longrightarrow>
   r1_sum (fold add_rank ks s) = r1_sum (fold add_rank ks t)"
proof (induction ks arbitrary: s t)
  case Nil
  then show ?case by simp
next
  case (Cons k ks)
  have "combined (add_rank k s) = combined (add_rank k t)"
    and "avg_rank (add_rank k s) = avg_rank (add_rank k t)"
    and "r1_sum (add_rank k s) = r1_sum (add_rank k t)"
    using Cons.prems by (simp_all add: add_rank_def Let_def)
  then show ?case
    using Cons.IH [of "add_rank k s" "add_rank k t"] by simp
qed

lemma second_pass_step_cong:
  assumes "combined s = combined t" and "idx_i s = idx_i t" and "r1_sum s = r1_sum t"
  shows "combined (second_pass_step s) = combined (second_pass_step t) \<and>
         idx_i (second_pass_step s) = idx_i (second_pass_step t) \<and>
         r1_sum (second_pass_step s) = r1_sum (second_pass_step t)"
proof -
  let ?s = "tie_end (s\<lparr>idx_j := idx_i s\<rparr>)" and ?t = "tie_end (t\<lparr>idx_j := idx_i t\<rparr>)"
  have j: "idx_j ?s = idx_j ?t"
    using assms by (intro tie_end_cong) simp_all
  have i: "idx_i ?s = idx_i ?t" and c: "combined ?s = combined ?t" and r: "r1_sum ?s = r1_sum ?t"
    using assms by (simp_all add: tie_end_frame)
  let ?a = "(real (idx_i ?s) + 1 + real (idx_j ?s)) / 2"
  have "r1_sum (fold add_rank [idx_i ?s..<idx_j ?s] (?s\<lparr>avg_rank := ?a\<rparr>)) =
        r1_sum (fold add_rank [idx_i ?s..<idx_j ?s] (?t\<lparr>avg_rank := ?a\<rparr>))"
    using c r by (intro fold_add_rank_cong) simp_all
  with i j c show ?thesis
    using assms by (simp add: second_pass_step_def Let_def fold_add_rank_frame tie_end_frame)
qed

lemma second_pass_cong:
  "combined s = combined t \<Longrightarrow> idx_i s = idx_i t \<Longrightarrow> r1_sum s = r1_sum t \<Longrightarrow>
   r1_sum (second_pass s) = r1_sum (second_pass t)"
proof (induction s arbitrary: t rule: second_pass.induct)
  case (1 s)
  show ?case
  proof (cases "idx_i s < length (combined s)")
    case True
    have "r1_sum (second_pass (second_pass_step s)) = r1_sum (second_pass (second_pass_step t))"
      using second_pass_step_cong [OF 1(2-4)] True by (intro 1(1)) simp_all
    with True 1(2-4) show ?thesis
      by (simp add: second_pass.simps [of s] second_pass.simps [of t])
  next
    case False
    with 1(2-4) show ?thesis
      by (simp add: second_pass.simps [of s] second_pass.simps [of t])
  qed
qed

text \<open>
  Claim C7. For every pair of samples \<^verbatim>\<open>mann_whitney_u_test\<close> returns what the function
  without its first rank loop returns: the first loop ends, and nothing it assigns is
  read by the second.
\<close>

theorem mann_whitney_first_pass_dead:
  "mann_whitney_u_test v1 v2 = mann_whitney_single_pass v1 v2"
proof -
  have "r1_sum (rank_passes v1 v2) = r1_sum (rank_single_pass v1 v2)"
    unfolding rank_passes_def rank_single_pass_def Let_def
    by (rule second_pass_cong) simp_all
  then show ?thesis
    by (simp add: mann_whitney_u_test_def mann_whitney_single_pass_def)
qed

text \<open>
  What the rank loops compute. On the sorted merged list each round of the second loop
  starts at the first member of a run of equal values, \<open>tie_end\<close> stops at its end,
  and the mean rank of the round is the midrank of the specification. So the rank sum
  that \<open>u1\<close> is computed from is the sum of the midranks of the members of the first
  sample within the two samples taken together.
\<close>

lemma tie_end_run:
  "idx_j s \<le> length (combined s) \<Longrightarrow>
   (\<forall>k. idx_j s \<le> k \<and> k < idx_j (tie_end s) \<longrightarrow>
        fst (combined s ! k) = fst (combined s ! idx_i s)) \<and>
   (idx_j (tie_end s) < length (combined s) \<longrightarrow>
        fst (combined s ! idx_j (tie_end s)) \<noteq> fst (combined s ! idx_i s))"
proof (induction s rule: tie_end.induct)
  case (1 s)
  show ?case
  proof (cases "idx_j s < length (combined s) \<and>
                fst (combined s ! idx_j s) = fst (combined s ! idx_i s)")
    case True
    let ?s' = "s\<lparr>idx_j := idx_j s + 1\<rparr>"
    have step: "tie_end s = tie_end ?s'"
      using True by (simp add: tie_end.simps [of s])
    have ih: "(\<forall>k. idx_j s + 1 \<le> k \<and> k < idx_j (tie_end ?s') \<longrightarrow>
                 fst (combined s ! k) = fst (combined s ! idx_i s)) \<and>
              (idx_j (tie_end ?s') < length (combined s) \<longrightarrow>
                 fst (combined s ! idx_j (tie_end ?s')) \<noteq> fst (combined s ! idx_i s))"
      using 1(1) [OF True] True by simp
    have "fst (combined s ! k) = fst (combined s ! idx_i s)"
      if "idx_j s \<le> k" and "k < idx_j (tie_end ?s')" for k
    proof (cases "k = idx_j s")
      case True
      then show ?thesis using \<open>idx_j s < length (combined s) \<and> _\<close> by simp
    next
      case False
      then show ?thesis using that ih by simp
    qed
    with ih show ?thesis by (simp add: step)
  next
    case False
    then have "tie_end s = s"
      by (auto simp add: tie_end.simps [of s])
    with False show ?thesis by auto
  qed
qed

lemma tie_end_equal:
  assumes "idx_j s \<le> length (combined s)" and "idx_j s \<le> k" and "k < idx_j (tie_end s)"
  shows "fst (combined s ! k) = fst (combined s ! idx_i s)"
  using tie_end_run [OF assms(1)] assms(2,3) by blast

lemma tie_end_differs:
  assumes "idx_j s \<le> length (combined s)" and "idx_j (tie_end s) < length (combined s)"
  shows "fst (combined s ! idx_j (tie_end s)) \<noteq> fst (combined s ! idx_i s)"
  using tie_end_run [OF assms(1)] assms(2) by blast

lemma length_filter_prefix:
  assumes "i \<le> length xs"
    and "\<forall>k<i. P (xs ! k)"
    and "\<forall>k. i \<le> k \<and> k < length xs \<longrightarrow> \<not> P (xs ! k)"
  shows "length (filter P xs) = i"
proof -
  have "filter P (take i xs) = take i xs"
    using assms(1,2) by (auto simp add: filter_id_conv in_set_conv_nth)
  moreover have "filter P (drop i xs) = []"
    using assms(1,3) by (auto simp add: filter_empty_conv in_set_conv_nth)
  moreover have "filter P xs = filter P (take i xs) @ filter P (drop i xs)"
    by (simp flip: filter_append)
  ultimately show ?thesis using assms(1) by simp
qed

lemma fold_add_rank_sum:
  "r1_sum (fold add_rank ks s) =
   r1_sum s + (\<Sum>k\<leftarrow>ks. if snd (combined s ! k) = 1 then avg_rank s else 0)"
proof (induction ks arbitrary: s)
  case Nil
  then show ?case by simp
next
  case (Cons k ks)
  have "combined (add_rank k s) = combined s" "avg_rank (add_rank k s) = avg_rank s"
       "r1_sum (add_rank k s) = r1_sum s + (if snd (combined s ! k) = 1 then avg_rank s else 0)"
    by (simp_all add: add_rank_def Let_def)
  then show ?case
    using Cons.IH [of "add_rank k s"] by (simp cong: if_cong)
qed


lemma sorted_fst_merged: "sorted (map fst (merged v1 v2))"
proof -
  have "sorted (merged v1 v2)"
    by (simp add: merged_def)
  then have "sorted_wrt (\<lambda>p q. fst p \<le> fst q) (merged v1 v2)"
    by (rule sorted_wrt_mono_rel [rotated]) (auto simp add: less_eq_prod_def)
  then show ?thesis
    by (simp add: sorted_map)
qed

lemma mset_fst_merged: "mset (map fst (merged v1 v2)) = mset (v1 @ v2)"
proof -
  have "map fst (map (\<lambda>v. (v, 1 :: nat)) v1 @ map (\<lambda>v. (v, 2)) v2) = v1 @ v2"
    by (simp add: comp_def)
  then have "mset (v1 @ v2) =
             image_mset fst (mset (map (\<lambda>v. (v, 1 :: nat)) v1 @ map (\<lambda>v. (v, 2)) v2))"
    by (simp only: mset_map [symmetric])
  also have "\<dots> = mset (map fst (merged v1 v2))"
    by (simp add: merged_def)
  finally show ?thesis by simp
qed

lemma length_filter_mset_cong:
  assumes "mset xs = mset ys"
  shows "length (filter P xs) = length (filter P ys)"
proof -
  have "mset (filter P xs) = mset (filter P ys)"
    using assms by (simp only: mset_filter)
  then show ?thesis
    by (rule mset_eq_length)
qed

lemma spec_midrank_merged:
  "spec_midrank (map fst (merged v1 v2)) x = spec_midrank (v1 @ v2) x"
  unfolding spec_midrank_def
  using length_filter_mset_cong [OF mset_fst_merged [of v1 v2]] by simp


lemma second_pass_step_rank:
  assumes srt: "sorted (map fst (combined s))"
    and i: "idx_i s < length (combined s)"
    and start: "\<forall>k<idx_i s. fst (combined s ! k) < fst (combined s ! idx_i s)"
  shows "idx_i s < idx_i (second_pass_step s)"
    and "idx_i (second_pass_step s) \<le> length (combined s)"
    and "r1_sum (second_pass_step s) =
         r1_sum s + (\<Sum>k = idx_i s..<idx_i (second_pass_step s).
            if snd (combined s ! k) = 1
            then spec_midrank (map fst (combined s)) (fst (combined s ! k)) else 0)"
    and "idx_i (second_pass_step s) < length (combined s) \<Longrightarrow>
         \<forall>k<idx_i (second_pass_step s).
           fst (combined s ! k) < fst (combined s ! idx_i (second_pass_step s))"
proof -
  let ?c = "combined s" and ?i = "idx_i s"
  let ?t = "tie_end (s\<lparr>idx_j := idx_i s\<rparr>)"
  let ?J = "idx_j ?t"
  let ?x = "fst (?c ! ?i)"
  let ?vals = "map fst ?c"
  have J: "idx_i (second_pass_step s) = ?J"
    by (simp add: second_pass_step_frame)
  have iJ: "?i < ?J"
    using tie_end_advances [of "s\<lparr>idx_j := idx_i s\<rparr>"] i by simp
  have Jn: "?J \<le> length ?c"
    using tie_end_bounded [of "s\<lparr>idx_j := idx_i s\<rparr>"] i by simp
  have run: "fst (?c ! k) = ?x" if "?i \<le> k" "k < ?J" for k
    using tie_end_equal [of "s\<lparr>idx_j := idx_i s\<rparr>" k] i that by simp
  have stop: "fst (?c ! ?J) \<noteq> ?x" if "?J < length ?c"
    using tie_end_differs [of "s\<lparr>idx_j := idx_i s\<rparr>"] i that by simp
  have mono: "fst (?c ! a) \<le> fst (?c ! b)" if "a \<le> b" "b < length ?c" for a b
    using sorted_nth_mono [OF srt, of a b] that by simp
  have above: "?x < fst (?c ! k)" if "?J \<le> k" "k < length ?c" for k
  proof -
    have "?J < length ?c" using that by simp
    then have "fst (?c ! ?J) \<noteq> ?x" by (rule stop)
    moreover have "?x \<le> fst (?c ! ?J)"
      using mono [of ?i ?J] iJ \<open>?J < length ?c\<close> by simp
    moreover have "fst (?c ! ?J) \<le> fst (?c ! k)"
      using mono [of ?J k] that by simp
    ultimately show ?thesis by simp
  qed
  have below: "length (filter (\<lambda>y. y < ?x) ?vals) = ?i"
  proof (rule length_filter_prefix)
    show "?i \<le> length ?vals" using i by simp
    show "\<forall>k<?i. ?vals ! k < ?x" using start i by simp
    show "\<forall>k. ?i \<le> k \<and> k < length ?vals \<longrightarrow> \<not> ?vals ! k < ?x"
      using mono [of ?i] by (auto simp add: not_less)
  qed
  have atmost: "length (filter (\<lambda>y. y \<le> ?x) ?vals) = ?J"
  proof (rule length_filter_prefix)
    show "?J \<le> length ?vals" using Jn by simp
    show "\<forall>k<?J. ?vals ! k \<le> ?x"
    proof (intro allI impI)
      fix k assume k: "k < ?J"
      then have kn: "k < length ?c" using Jn by simp
      show "?vals ! k \<le> ?x"
      proof (cases "k < ?i")
        case True
        then show ?thesis using start kn by (simp add: less_imp_le)
      next
        case False
        then show ?thesis using run [of k] k kn by simp
      qed
    qed
    show "\<forall>k. ?J \<le> k \<and> k < length ?vals \<longrightarrow> \<not> ?vals ! k \<le> ?x"
      using above by (auto simp add: not_le)
  qed
  have mid: "spec_midrank ?vals ?x = (real ?i + 1 + real ?J) / 2"
    by (simp only: spec_midrank_def below atmost)
  have "r1_sum (second_pass_step s) =
        r1_sum s + (\<Sum>k\<leftarrow>[?i..<?J]. if snd (?c ! k) = 1 then (real ?i + 1 + real ?J) / 2 else 0)"
    by (simp add: second_pass_step_def Let_def fold_add_rank_sum tie_end_frame cong: if_cong)
  also have "(\<Sum>k\<leftarrow>[?i..<?J]. if snd (?c ! k) = 1 then (real ?i + 1 + real ?J) / 2 else 0) =
             (\<Sum>k = ?i..<?J. if snd (?c ! k) = 1 then (real ?i + 1 + real ?J) / 2 else 0)"
    by (simp add: interv_sum_list_conv_sum_set_nat)
  also have "\<dots> = (\<Sum>k = ?i..<?J. if snd (?c ! k) = 1
                        then spec_midrank ?vals (fst (?c ! k)) else 0)"
  proof (rule sum.cong)
    fix k assume "k \<in> {?i..<?J}"
    then have "fst (?c ! k) = ?x"
      using run [of k] by simp
    then show "(if snd (?c ! k) = 1 then (real ?i + 1 + real ?J) / 2 else 0) =
               (if snd (?c ! k) = 1 then spec_midrank ?vals (fst (?c ! k)) else 0)"
      by (simp only: mid)
  qed simp
  finally show "r1_sum (second_pass_step s) =
         r1_sum s + (\<Sum>k = idx_i s..<idx_i (second_pass_step s).
            if snd (combined s ! k) = 1
            then spec_midrank (map fst (combined s)) (fst (combined s ! k)) else 0)"
    by (simp only: J)
  show "idx_i s < idx_i (second_pass_step s)" using iJ by (simp only: J)
  show "idx_i (second_pass_step s) \<le> length (combined s)" using Jn by (simp only: J)
  show "\<forall>k<idx_i (second_pass_step s).
           fst (combined s ! k) < fst (combined s ! idx_i (second_pass_step s))"
    if "idx_i (second_pass_step s) < length (combined s)"
  proof (intro allI impI)
    fix k assume "k < idx_i (second_pass_step s)"
    then have k: "k < ?J" by (simp only: J)
    have Jlt: "?J < length ?c" using that by (simp only: J)
    have "fst (?c ! k) \<le> ?x"
    proof (cases "k < ?i")
      case True
      then show ?thesis using start by (simp add: less_imp_le)
    next
      case False
      then show ?thesis using run [of k] k by simp
    qed
    also have "?x < fst (?c ! ?J)" using above [of ?J] Jlt by simp
    finally show "fst (combined s ! k) < fst (combined s ! idx_i (second_pass_step s))"
      by (simp only: J)
  qed
qed


lemma second_pass_rank_sum:
  "sorted (map fst (combined s)) \<Longrightarrow> idx_i s \<le> length (combined s) \<Longrightarrow>
   (idx_i s < length (combined s) \<Longrightarrow>
      \<forall>k<idx_i s. fst (combined s ! k) < fst (combined s ! idx_i s)) \<Longrightarrow>
   r1_sum (second_pass s) =
   r1_sum s + (\<Sum>k = idx_i s..<length (combined s).
      if snd (combined s ! k) = 1
      then spec_midrank (map fst (combined s)) (fst (combined s ! k)) else 0)"
proof (induction s rule: second_pass.induct)
  case (1 s)
  show ?case
  proof (cases "idx_i s < length (combined s)")
    case True
    let ?s' = "second_pass_step s"
    let ?g = "\<lambda>k. if snd (combined s ! k) = 1
                  then spec_midrank (map fst (combined s)) (fst (combined s ! k)) else 0"
    note step = second_pass_step_rank [OF 1(2) True 1(4) [OF True]]
    have c: "combined ?s' = combined s"
      by (simp add: second_pass_step_frame)
    have "r1_sum (second_pass ?s') =
          r1_sum ?s' + (\<Sum>k = idx_i ?s'..<length (combined ?s').
             if snd (combined ?s' ! k) = 1
             then spec_midrank (map fst (combined ?s')) (fst (combined ?s' ! k)) else 0)"
    proof (rule 1(1) [OF True])
      show "sorted (map fst (combined ?s'))" using 1(2) by (simp only: c)
      show "idx_i ?s' \<le> length (combined ?s')" using step(2) by (simp only: c)
      show "\<forall>k<idx_i ?s'. fst (combined ?s' ! k) < fst (combined ?s' ! idx_i ?s')"
        if "idx_i ?s' < length (combined ?s')"
      proof -
        have "idx_i ?s' < length (combined s)"
          using that by (simp only: c)
        from step(4) [OF this] show ?thesis
          by (simp only: c)
      qed
    qed
    then have "r1_sum (second_pass ?s') =
          r1_sum s + sum ?g {idx_i s..<idx_i ?s'} + sum ?g {idx_i ?s'..<length (combined s)}"
      by (simp only: c step(3))
    also have "\<dots> = r1_sum s + sum ?g {idx_i s..<length (combined s)}"
      using step(1,2) by (simp add: sum.atLeastLessThan_concat less_imp_le add.assoc)
    finally show ?thesis
      using True by (simp add: second_pass.simps [of s])
  next
    case False
    with 1(3) show ?thesis
      by (simp add: second_pass.simps [of s])
  qed
qed

lemma sum_list_merged:
  fixes g :: "real \<times> nat \<Rightarrow> real"
  shows "sum_list (map g (merged v1 v2)) =
   sum_list (map (\<lambda>v. g (v, 1)) v1) + sum_list (map (\<lambda>v. g (v, 2)) v2)"
proof -
  have "sum_list (map g (merged v1 v2)) = sum_mset (image_mset g (mset (merged v1 v2)))"
    by (simp only: sum_mset_sum_list [symmetric] mset_map)
  also have "\<dots> = sum_mset (image_mset g
                      (mset (map (\<lambda>v. (v, 1)) v1 @ map (\<lambda>v. (v, 2)) v2)))"
    by (simp add: merged_def)
  also have "\<dots> = sum_list (map g (map (\<lambda>v. (v, 1)) v1 @ map (\<lambda>v. (v, 2)) v2))"
    by (simp only: sum_mset_sum_list [symmetric] mset_map)
  finally show ?thesis
    by (simp add: comp_def)
qed

lemma sum_nth_map:
  fixes g :: "'a \<Rightarrow> real"
  shows "(\<Sum>k = 0..<length xs. g (xs ! k)) = sum_list (map g xs)"
proof -
  have "sum_list (map g xs) = (\<Sum>k = 0..<length (map g xs). map g xs ! k)"
    by (rule sum_list_sum_nth)
  also have "\<dots> = (\<Sum>k = 0..<length xs. g (xs ! k))"
    by (rule sum.cong) simp_all
  finally show ?thesis by simp
qed

lemma rank_passes_r1_sum:
  "r1_sum (rank_passes v1 v2) = (\<Sum>x\<leftarrow>v1. spec_midrank (v1 @ v2) x)"
proof -
  let ?c = "merged v1 v2"
  let ?g = "\<lambda>p. if snd p = (1 :: nat) then spec_midrank (map fst ?c) (fst p) else 0"
  let ?s = "(first_pass \<lparr>combined = ?c, ranks = replicate (length v1 + length v2) 0,
                idx_i = 0, idx_j = 0, idx_k = 0, avg_rank = 0, r1_sum = 0\<rparr>)
              \<lparr>combined := ?c, r1_sum := 0, idx_i := 0\<rparr>"
  have s: "combined ?s = ?c" "idx_i ?s = 0" "r1_sum ?s = 0"
    by simp_all
  have "r1_sum (second_pass ?s) =
        r1_sum ?s + (\<Sum>k = idx_i ?s..<length (combined ?s).
           if snd (combined ?s ! k) = 1
           then spec_midrank (map fst (combined ?s)) (fst (combined ?s ! k)) else 0)"
    by (rule second_pass_rank_sum) (simp_all add: sorted_fst_merged)
  then have "r1_sum (second_pass ?s) = (\<Sum>k = 0..<length ?c. ?g (?c ! k))"
    by (simp only: s add_0)
  moreover have "rank_passes v1 v2 = second_pass ?s"
    by (simp add: rank_passes_def Let_def)
  ultimately have "r1_sum (rank_passes v1 v2) = (\<Sum>k = 0..<length ?c. ?g (?c ! k))"
    by (simp only:)
  also have "\<dots> = sum_list (map ?g ?c)"
    by (rule sum_nth_map)
  also have "\<dots> = (\<Sum>x\<leftarrow>v1. spec_midrank (map fst ?c) x)"
    by (simp add: sum_list_merged)
  finally show ?thesis
    by (simp only: spec_midrank_merged)
qed

subsection \<open>The \<^verbatim>\<open>hypothesis_test\<close> command\<close>

lemma mann_whitney_small:
  "length v1 < 3 \<or> length v2 < 3 \<Longrightarrow>
   mann_whitney_u_test v1 v2 = Inr (Tuple3 0 0 ''insufficient_data'')"
  by (auto simp add: mann_whitney_u_test_def)

lemma not_both_normal_small:
  assumes "length v1 < 3 \<or> length v2 < 3"
    and "check_normality v1 = Inr (s1, a1, b1)" and "check_normality v2 = Inr (s2, a2, b2)"
  shows "\<not> (s1 = ''approximately_normal'' \<and> s2 = ''approximately_normal'')"
  using assms by (auto simp add: check_normality_small)

lemma z_to_pvalue_zero: "z_to_pvalue 0 = 0.5"
  by (simp add: z_to_pvalue_def)

lemma hypothesis_test_small:
  assumes "length v1 < 3 \<or> length v2 < 3"
    and "check_normality v1 = Inr (s1, a1, b1)" and "check_normality v2 = Inr (s2, a2, b2)"
  shows "hypothesis_test v1 v2 =
     try_bind (calculate_rank_biserial 0 (int (length v1)) (int (length v2)))
       (\<lambda>effect. Inr (MannWhitneyOutcome 0 0 0.5 ''insufficient_data'' effect s1 s2))"
  using not_both_normal_small [OF assms] assms
  by (auto simp add: hypothesis_test_def Let_def mann_whitney_small z_to_pvalue_zero)

text \<open>
  Claim C4. When one of the two samples is empty, \<^verbatim>\<open>hypothesis_test\<close> takes the
  Mann-Whitney branch, the test returns its \<^verbatim>\<open>insufficient_data\<close> tuple, and
  \<^verbatim>\<open>calculate_rank_biserial\<close> then divides by \<open>n1 n2 = 0\<close>: the command ends with
  \<^verbatim>\<open>ZeroDivisionError\<close> instead of an outcome.
\<close>

theorem hypothesis_test_empty_sample_fails:
  assumes "v1 = [] \<or> v2 = []"
  shows "mann_whitney_u_test v1 v2 = Inr (Tuple3 0 0 ''insufficient_data'') \<and>
         calculate_rank_biserial 0 (int (length v1)) (int (length v2)) = Inl ZeroDivisionError \<and>
         hypothesis_test v1 v2 = Inl ZeroDivisionError"
proof -
  have small: "length v1 < 3 \<or> length v2 < 3"
    using assms by auto
  obtain s1 a1 b1 where c1: "check_normality v1 = Inr (s1, a1, b1)"
    using check_normality_total by blast
  obtain s2 a2 b2 where c2: "check_normality v2 = Inr (s2, a2, b2)"
    using check_normality_total by blast
  have rb: "calculate_rank_biserial 0 (int (length v1)) (int (length v2)) = Inl ZeroDivisionError"
    using assms by (auto simp add: calculate_rank_biserial_def py_div_def)
  show ?thesis
    using hypothesis_test_small [OF small c1 c2] rb mann_whitney_small [OF small] by simp
qed

theorem hypothesis_test_empty_sample_fails_witness:
  "hypothesis_test [] [1, 2, 3] = Inl ZeroDivisionError"
  using hypothesis_test_empty_sample_fails [of "[]" "[1, 2, 3]"] by simp

text \<open>
  Claim C10. For two non-empty samples of which one has fewer than three elements,
  \<^verbatim>\<open>hypothesis_test\<close> emits a Mann-Whitney outcome with status
  \<^verbatim>\<open>insufficient_data\<close> whose effect size is exactly 1: the sentinel \<open>u_stat = 0\<close>
  goes through \<^verbatim>\<open>calculate_rank_biserial\<close>, which gives \<open>1 - 0 / (n1 n2)\<close>.
\<close>

theorem hypothesis_test_small_effect_one:
  assumes "v1 \<noteq> []" and "v2 \<noteq> []" and "length v1 < 3 \<or> length v2 < 3"
  shows "\<exists>s1 s2 a1 b1 a2 b2.
           check_normality v1 = Inr (s1, a1, b1) \<and> check_normality v2 = Inr (s2, a2, b2) \<and>
           mann_whitney_u_test v1 v2 = Inr (Tuple3 0 0 ''insufficient_data'') \<and>
           calculate_rank_biserial 0 (int (length v1)) (int (length v2)) = Inr 1 \<and>
           hypothesis_test v1 v2 =
             Inr (MannWhitneyOutcome 0 0 0.5 ''insufficient_data'' 1 s1 s2)"
proof -
  obtain s1 a1 b1 where c1: "check_normality v1 = Inr (s1, a1, b1)"
    using check_normality_total by blast
  obtain s2 a2 b2 where c2: "check_normality v2 = Inr (s2, a2, b2)"
    using check_normality_total by blast
  have rb: "calculate_rank_biserial 0 (int (length v1)) (int (length v2)) = Inr 1"
    using assms(1,2) by (simp add: calculate_rank_biserial_def py_div_def)
  have "hypothesis_test v1 v2 = Inr (MannWhitneyOutcome 0 0 0.5 ''insufficient_data'' 1 s1 s2)"
    using hypothesis_test_small [OF assms(3) c1 c2] rb by simp
  with c1 c2 rb mann_whitney_small [OF assms(3)] show ?thesis by blast
qed

theorem hypothesis_test_small_effect_one_witness:
  "hypothesis_test [7] [1, 2, 3, 4] =
     Inr (MannWhitneyOutcome 0 0 0.5 ''insufficient_data'' 1 ''insufficient_data'' ''insufficient_data'')"
  using hypothesis_test_small_effect_one [of "[7]" "[1, 2, 3, 4]"]
  by (simp add: check_normality_small)

text \<open>
  Claim C3. The claim: for every pair of samples \<^verbatim>\<open>hypothesis_test\<close> emits a Welch
  outcome when both normality statuses are \<^verbatim>\<open>approximately_normal\<close> and a
  Mann-Whitney outcome in every other case, both with the two statuses. The code at an
  empty first sample: both statuses are \<^verbatim>\<open>insufficient_data\<close>, the Mann-Whitney test
  is run and returns, and then no outcome is emitted; the command ends with
  \<^verbatim>\<open>ZeroDivisionError\<close>.
\<close>

theorem hypothesis_test_no_outcome_for_empty_sample:
  "check_normality [] = Inr (''insufficient_data'', 0, 0) \<and>
   check_normality [5] = Inr (''insufficient_data'', 0, 0) \<and>
   mann_whitney_u_test [] [5] = Inr (Tuple3 0 0 ''insufficient_data'') \<and>
   hypothesis_test [] [5] = Inl ZeroDivisionError"
  by (simp add: hypothesis_test_def check_normality_def mann_whitney_u_test_def
      z_to_pvalue_def calculate_rank_biserial_def py_div_def)

text \<open>
  The two branches of the command, away from the empty sample. When both statuses are
  \<^verbatim>\<open>approximately_normal\<close> both samples have at least twenty elements and a positive
  variance, Welch's test takes its last exit, and a Welch outcome is emitted. In every
  other case with two non-empty samples a Mann-Whitney outcome is emitted. Both carry the
  two statuses.
\<close>

lemma check_normality_normal:
  assumes "check_normality xs = Inr (''approximately_normal'', a, b)"
  shows "20 \<le> length xs" and "\<exists>var. statistics_variance xs = Inr var \<and> 0 < var"
proof -
  show len: "20 \<le> length xs"
  proof (rule ccontr)
    assume "\<not> 20 \<le> length xs"
    then have "check_normality xs = Inr (''insufficient_data'', 0, 0)"
      by (simp add: check_normality_small)
    with assms show False by simp
  qed
  then have two: "2 \<le> length xs" and ne: "xs \<noteq> []" by auto
  obtain var where var: "statistics_variance xs = Inr var" "0 \<le> var"
    using statistics_variance_total [OF two] by blast
  have "var \<noteq> 0"
  proof
    assume "var = 0"
    with var len ne have "check_normality xs = Inr (''zero_variance'', 0, 0)"
      by (simp add: check_normality_def statistics_stdev_def statistics_mean_def math_sqrt_def)
    with assms show False by simp
  qed
  with var show "\<exists>var. statistics_variance xs = Inr var \<and> 0 < var" by auto
qed

lemma calculate_cohens_d_total:
  assumes "2 \<le> n1" and "2 \<le> n2" and "0 \<le> s1" and "0 \<le> s2"
  shows "\<exists>d. calculate_cohens_d m1 m2 s1 s2 n1 n2 = Inr d"
proof -
  have "0 \<le> real_of_int (n1 - 1) * s1" "0 \<le> real_of_int (n2 - 1) * s2"
    using assms by simp_all
  then have "0 \<le> (real_of_int (n1 - 1) * s1 + real_of_int (n2 - 1) * s2) / real_of_int (n1 + n2 - 2)"
    using assms(1,2) by (intro divide_nonneg_nonneg add_nonneg_nonneg) simp_all
  moreover have "real_of_int (n1 + n2 - 2) \<noteq> 0"
    using assms(1,2) by simp
  ultimately show ?thesis
    unfolding calculate_cohens_d_def
    by (simp add: py_div_def math_sqrt_def not_less del: of_int_diff of_int_add)
qed

lemma hypothesis_test_welch_branch:
  assumes "check_normality v1 = Inr (''approximately_normal'', a1, b1)"
    and "check_normality v2 = Inr (''approximately_normal'', a2, b2)"
  shows "\<exists>t df m1 m2 s1 s2 d.
           welchs_t_test v1 v2 = Inr (Tuple3 t df ''success'') \<and>
           statistics_mean v1 = Inr m1 \<and> statistics_mean v2 = Inr m2 \<and>
           statistics_variance v1 = Inr s1 \<and> statistics_variance v2 = Inr s2 \<and>
           calculate_cohens_d m1 m2 s1 s2 (int (length v1)) (int (length v2)) = Inr d \<and>
           hypothesis_test v1 v2 =
             Inr (WelchOutcome t df (t_to_pvalue t df) ''success'' d
                    ''approximately_normal'' ''approximately_normal'')"
proof -
  have len: "20 \<le> length v1" "20 \<le> length v2"
    using check_normality_normal(1) assms by blast+
  obtain s1 where s1: "statistics_variance v1 = Inr s1" "0 < s1"
    using check_normality_normal(2) [OF assms(1)] by blast
  obtain s2 where s2: "statistics_variance v2 = Inr s2" "0 < s2"
    using check_normality_normal(2) [OF assms(2)] by blast
  obtain t df where w: "welchs_t_test v1 v2 = Inr (Tuple3 t df ''success'')"
    using welchs_t_test_success [OF _ _ s1(1) s2(1) s1(2) s2(2)] len by auto
  have m: "statistics_mean v1 = Inr (sum_list v1 / real (length v1))"
          "statistics_mean v2 = Inr (sum_list v2 / real (length v2))"
    using len by (auto simp add: statistics_mean_def)
  obtain d where d: "calculate_cohens_d (sum_list v1 / real (length v1))
        (sum_list v2 / real (length v2)) s1 s2 (int (length v1)) (int (length v2)) = Inr d"
    using calculate_cohens_d_total [of "int (length v1)" "int (length v2)" s1 s2] len s1 s2
    by auto
  have "hypothesis_test v1 v2 =
          Inr (WelchOutcome t df (t_to_pvalue t df) ''success'' d
                 ''approximately_normal'' ''approximately_normal'')"
    unfolding hypothesis_test_def Let_def
    by (simp add: assms w m s1(1) s2(1) d)
  with w m s1(1) s2(1) d show ?thesis by blast
qed

lemma hypothesis_test_mann_whitney_branch:
  assumes "v1 \<noteq> []" and "v2 \<noteq> []"
    and "check_normality v1 = Inr (s1, a1, b1)" and "check_normality v2 = Inr (s2, a2, b2)"
    and "s1 = ''approximately_normal'' \<Longrightarrow> s2 = ''approximately_normal'' \<Longrightarrow> False"
  shows "\<exists>u z status effect.
           mann_whitney_u_test v1 v2 = Inr (Tuple3 u z status) \<and>
           calculate_rank_biserial u (int (length v1)) (int (length v2)) = Inr effect \<and>
           hypothesis_test v1 v2 =
             Inr (MannWhitneyOutcome u z (z_to_pvalue z) status effect s1 s2)"
proof -
  obtain u z status where mw: "mann_whitney_u_test v1 v2 = Inr (Tuple3 u z status)"
  proof (cases "length v1 < 3 \<or> length v2 < 3")
    case True
    then show ?thesis using that mann_whitney_small by blast
  next
    case False
    then show ?thesis
      using that mw_finish_total [of "int (length v1)" "int (length v2)" "r1_sum (rank_passes v1 v2)"]
      by (auto simp add: mann_whitney_u_test_def)
  qed
  obtain effect where e: "calculate_rank_biserial u (int (length v1)) (int (length v2)) = Inr effect"
    using assms(1,2) by (simp add: calculate_rank_biserial_def py_div_def)
  have "hypothesis_test v1 v2 = Inr (MannWhitneyOutcome u z (z_to_pvalue z) status effect s1 s2)"
    unfolding hypothesis_test_def Let_def
    using assms(5) by (auto simp add: assms(3,4) mw e)
  with mw e show ?thesis by blast
qed

subsection \<open>The unit tests of the repository and two scenarios, in the model\<close>

text \<open>
  \<^verbatim>\<open>tests/unit/test_stats.py\<close> on the model: the assertions of its five tests hold of
  the definitions above. The square root is the one function here that is not computed;
  the statistics that contain one are left existentially quantified.
\<close>

lemma rank_sum_unit_test: "r1_sum (rank_passes [1, 2, 3, 4, 5] [10, 20, 30, 40, 50]) = 15"
  by code_simp

lemma rank_sum_ties: "r1_sum (rank_passes [1, 2, 2] [2, 3, 3]) = 7"
  by code_simp

lemma sqrt_power_four:
  assumes "0 \<le> c"
  shows "sqrt c ^ 4 = c\<^sup>2"
proof -
  have "sqrt c ^ 4 = ((sqrt c)\<^sup>2)\<^sup>2"
    by (simp add: power_mult [symmetric])
  also have "\<dots> = c\<^sup>2"
    using assms by simp
  finally show ?thesis .
qed

lemma test_calculate_stats:
  "\<exists>stdev ci_lower ci_upper.
     calculate_stats [1, 2, 3, 4, 5] = Inr [3, 3, stdev, 1, 5, 4, 4, 4, ci_lower, ci_upper]"
  by (simp add: calculate_stats_def statistics_mean_def statistics_median_def
      statistics_stdev_def statistics_variance_def math_sqrt_def py_div_def py_index_def
      py_int_def Let_def)

lemma test_welchs_t_test:
  "\<exists>t df. welchs_t_test [1, 2, 3, 4, 5] [10, 20, 30, 40, 50] = Inr (Tuple3 t df ''success'') \<and>
     t < 0"
  by (simp add: welchs_t_test_def statistics_mean_def statistics_variance_def py_div_def
      math_sqrt_def Let_def divide_neg_pos)

lemma test_mann_whitney_u_test:
  "\<exists>z. mann_whitney_u_test [1, 2, 3, 4, 5] [10, 20, 30, 40, 50] = Inr (Tuple3 0 z ''success'')"
  by (simp add: mann_whitney_u_test_def mw_finish_def mw_u1_def mw_u2_def rank_sum_unit_test
      math_sqrt_def py_div_def Let_def)

lemma test_pvalue_approximations:
  "z_to_pvalue 2.0 = 0.05 \<and> z_to_pvalue 0.5 = 0.50 \<and> t_to_pvalue 2.0 40 = 0.05"
  by (simp add: z_to_pvalue_def t_to_pvalue_def)

lemma test_check_normality:
  "\<exists>skew kurt. check_normality (map real [0..<25]) = Inr (''approximately_normal'', skew, kurt)"
  by (simp add: check_normality_def statistics_mean_def statistics_stdev_def
      statistics_variance_def math_sqrt_def py_div_def Let_def upt_rec power_divide
      sqrt_power_four)

text \<open>
  A sample of twenty points that the classifier calls approximately normal, and the
  command on two copies of it: the Welch branch, \<open>t = 0\<close>, 38 degrees of freedom,
  p-value 0.20 and effect 0.
\<close>

lemma check_normality_example:
  "check_normality [- 5, 5, - 3, 3, - 2, 2, 0, 0, 0, 0, 0, 0, 0, 0, 0, 0, 0, 0, 0, 0] =
     Inr (''approximately_normal'', 0, 121 / 80)"
  by (simp add: check_normality_def statistics_mean_def statistics_stdev_def
      statistics_variance_def math_sqrt_def py_div_def power_divide Let_def)

lemma hypothesis_test_welch_example:
  "hypothesis_test [- 5, 5, - 3, 3, - 2, 2, 0, 0, 0, 0, 0, 0, 0, 0, 0, 0, 0, 0, 0, 0]
                   [- 5, 5, - 3, 3, - 2, 2, 0, 0, 0, 0, 0, 0, 0, 0, 0, 0, 0, 0, 0, 0] =
     Inr (WelchOutcome 0 38 0.20 ''success'' 0 ''approximately_normal'' ''approximately_normal'')"
  by (simp add: hypothesis_test_def check_normality_example welchs_t_test_def
      statistics_mean_def statistics_variance_def math_sqrt_def py_div_def
      t_to_pvalue_def calculate_cohens_d_def power_divide Let_def)

end
